theory Spec2Isabelle
  imports Main "HOL-Library.Word" "HOL-Library.DAList" "HOL-Library.Sublist"
begin

section \<open>Byte slices\<close>

text \<open>
  A Go string and the contents of a \<^verbatim>\<open>[]byte\<close> are both sequences of bytes; a byte is a
  \<^typ>\<open>char\<close> (eight bits), so that the literals of the source can be written as they are.
\<close>

type_synonym byte = char
type_synonym bytes = "char list"

abbreviation newline :: byte where
  "newline \<equiv> CHR 0x0A"

definition zero_byte :: byte where
  "zero_byte = CHR 0x00"

text \<open>
  The run-time panics of the slice operations the source uses. Every one of them is a
  branch of the model: a function that can panic returns a value of a sum type, with
  \<open>Inl\<close> for the panic.
\<close>

datatype panic = Index_out_of_range | Slice_bounds_out_of_range | Makeslice_len_out_of_range

definition and_then :: "panic + 'a \<Rightarrow> ('a \<Rightarrow> panic + 'b) \<Rightarrow> panic + 'b" where
  "and_then r f = (case r of Inl e \<Rightarrow> Inl e | Inr x \<Rightarrow> f x)"

text \<open>
  A slice is a window on a backing array. \<open>slice_arr\<close> is the backing array from the
  first element of the slice to the end of the array, so the capacity of the slice is
  its length; \<open>slice_len\<close> is the length of the slice. The bytes between the length and
  the capacity stay in the array and come back into view when the slice is extended.
\<close>

record slice =
  slice_arr :: "byte list"
  slice_len :: nat

definition cap :: "slice \<Rightarrow> nat" where
  "cap p = length (slice_arr p)"

definition bytes_of :: "slice \<Rightarrow> bytes" where
  "bytes_of p = take (slice_len p) (slice_arr p)"

text \<open>\<^verbatim>\<open>make([]byte, l)\<close>: a fresh array of \<open>l\<close> zero bytes; a negative length panics.\<close>

definition make_bytes :: "int \<Rightarrow> panic + slice" where
  "make_bytes l =
     (if l < 0 then Inl Makeslice_len_out_of_range
      else Inr \<lparr>slice_arr = replicate (nat l) zero_byte, slice_len = nat l\<rparr>)"

text \<open>
  \<^verbatim>\<open>copy(p[i:], src)\<close>: the slice expression panics unless \<open>0 \<le> i \<le> len(p)\<close>; the
  slice \<^verbatim>\<open>p[i:]\<close> shares the array of \<open>p\<close>, so the copy lands in \<open>p\<close> from index \<open>i\<close>
  on. It copies \<open>min(len(p) - i, len(src))\<close> bytes and returns that number.
  \<^verbatim>\<open>copy(p, src)\<close> is the case \<open>i = 0\<close>.
\<close>

definition copy_at :: "slice \<Rightarrow> int \<Rightarrow> bytes \<Rightarrow> panic + (slice \<times> int)" where
  "copy_at p i src =
     (if i < 0 \<or> int (slice_len p) < i then Inl Slice_bounds_out_of_range
      else let n = min (slice_len p - nat i) (length src)
           in Inr (p\<lparr>slice_arr := take (nat i) (slice_arr p) @ take n src
                                       @ drop (nat i + n) (slice_arr p)\<rparr>, int n))"

text \<open>\<^verbatim>\<open>p[i] = b\<close>: panics unless \<open>0 \<le> i < len(p)\<close>.\<close>

definition store :: "slice \<Rightarrow> int \<Rightarrow> byte \<Rightarrow> panic + slice" where
  "store p i b =
     (if i < 0 \<or> int (slice_len p) \<le> i then Inl Index_out_of_range
      else Inr (p\<lparr>slice_arr := (slice_arr p)[nat i := b]\<rparr>))"

text \<open>\<^verbatim>\<open>p[:n]\<close>: panics unless \<open>0 \<le> n \<le> cap(p)\<close>; the array is shared.\<close>

definition reslice :: "slice \<Rightarrow> int \<Rightarrow> panic + slice" where
  "reslice p n =
     (if n < 0 \<or> int (cap p) < n then Inl Slice_bounds_out_of_range
      else Inr (p\<lparr>slice_len := nat n\<rparr>))"

text \<open>
  \<^verbatim>\<open>append(p, xs...)\<close>: when the capacity suffices the bytes are written into the array
  of \<open>p\<close> after its length. Otherwise a new array is allocated; its capacity is at least
  the new length, and the model gives it exactly that, the least the runtime may give.
\<close>

definition append_bytes :: "slice \<Rightarrow> bytes \<Rightarrow> slice" where
  "append_bytes p xs =
     (if slice_len p + length xs \<le> cap p
      then \<lparr>slice_arr = take (slice_len p) (slice_arr p) @ xs
                          @ drop (slice_len p + length xs) (slice_arr p),
            slice_len = slice_len p + length xs\<rparr>
      else \<lparr>slice_arr = take (slice_len p) (slice_arr p) @ xs,
            slice_len = slice_len p + length xs\<rparr>)"

section \<open>The frame encoder\<close>

text \<open>
  \<^verbatim>\<open>func format(id, event string, dataLen int) (p []byte)\<close>. The frame is built in a
  slice of the computed length \<open>l\<close>, with \<open>dataLen\<close> bytes left unwritten for the data
  between the colon and the final two newlines. The parameter \<open>id\<close> is named \<open>ident\<close>
  here. Go's \<^verbatim>\<open>int\<close> is modelled as \<^typ>\<open>int\<close>: the lengths of two strings that exist in
  memory do not add up to \<open>2^63\<close>.
\<close>

definition format :: "string \<Rightarrow> string \<Rightarrow> int \<Rightarrow> panic + slice" where
  "format ident event dataLen =
     (let l = 6;
          l = (if int (length event) > 0 then l + (6 + int (length event) + 1) else l);
          l = (if dataLen > 0 then l + (1 + dataLen) else l)
      in
      and_then (make_bytes l) (\<lambda>p.
      let i = 0 in
      and_then
        (if int (length event) > 0
         then and_then (copy_at p 0 ''event:'') (\<lambda>(p, _).
              and_then (copy_at p 6 event) (\<lambda>(p, n).
              let i = i + (6 + n) in
              and_then (store p i newline) (\<lambda>p.
              Inr (p, i + 1))))
         else Inr (p, i)) (\<lambda>(p, i).
      and_then (copy_at p i ''data'') (\<lambda>(p, n).
      let i = i + n in
      and_then
        (if dataLen > 0
         then and_then (store p i CHR '':'') (\<lambda>p.
              Inr (p, i + (1 + dataLen)))
         else Inr (p, i)) (\<lambda>(p, i).
      and_then (copy_at p i [newline, newline]) (\<lambda>(p, _).
      Inr p))))))"

section \<open>Requests to the coordinator\<close>

text \<open>
  \<^verbatim>\<open>type client chan []byte\<close>: a client is a channel, and a channel is known by its
  identity. A value of type \<open>request\<close> is a value on one of the three channels of the
  Streamer: a client on \<^verbatim>\<open>connecting\<close>, a client on \<^verbatim>\<open>disconnecting\<close>, a frame on
  \<^verbatim>\<open>event\<close>. Every function that sends on these channels returns, in the model, the
  list of the values it sent, in order; the goroutine of \<^verbatim>\<open>run\<close> takes the values it
  receives.
\<close>

type_synonym client = nat

datatype request = Connecting client | Disconnecting client | Event bytes

section \<open>The send functions\<close>

text \<open>
  \<^verbatim>\<open>SendBytes\<close> and \<^verbatim>\<open>SendString\<close> fill the data in and send the slice on
  \<^verbatim>\<open>s.event\<close>. What a receiver of the slice reads is \<open>p[0:len(p)]\<close>, the value of
  \<open>bytes_of\<close>.
\<close>

definition SendBytes :: "string \<Rightarrow> string \<Rightarrow> bytes \<Rightarrow> panic + request list" where
  "SendBytes ident event data =
     and_then (format ident event (int (length data))) (\<lambda>p.
     and_then (copy_at p (int (slice_len p) - (2 + int (length data))) data) (\<lambda>(p, _).
     Inr [Event (bytes_of p)]))"

definition SendString :: "string \<Rightarrow> string \<Rightarrow> string \<Rightarrow> panic + request list" where
  "SendString ident event data =
     and_then (format ident event (int (length data))) (\<lambda>p.
     and_then (copy_at p (int (slice_len p) - (2 + int (length data))) data) (\<lambda>(p, _).
     Inr [Event (bytes_of p)]))"

text \<open>
  \<^verbatim>\<open>strconv.AppendInt(dst, i, 10)\<close> and \<^verbatim>\<open>strconv.AppendUint(dst, i, 10)\<close> belong to
  Go's standard library. They are modelled from its documentation: they append the
  decimal string form of \<open>i\<close> to \<open>dst\<close> and return the extended slice. \<open>digits\<close> is the
  decimal notation of a number that is not negative, \<open>decimal\<close> puts the sign in front.
\<close>

function digits :: "int \<Rightarrow> string" where
  "digits n = (if n < 10 then [''0123456789'' ! nat n]
               else digits (n div 10) @ [''0123456789'' ! nat (n mod 10)])"
  by pat_completeness auto
termination
  by (relation "measure nat") auto

definition decimal :: "int \<Rightarrow> string" where
  "decimal n = (if n < 0 then CHR ''-'' # digits (- n) else digits n)"

definition AppendInt :: "slice \<Rightarrow> 64 word \<Rightarrow> slice" where
  "AppendInt dst i = append_bytes dst (decimal (sint i))"

definition AppendUint :: "slice \<Rightarrow> 64 word \<Rightarrow> slice" where
  "AppendUint dst i = append_bytes dst (decimal (uint i))"

text \<open>
  \<^verbatim>\<open>SendInt\<close> and \<^verbatim>\<open>SendUint\<close>: the frame is formatted with 20 bytes reserved for the
  data, cut back to the colon, extended by the digits, and extended again by two bytes
  that are then overwritten with newlines. \<open>int64\<close> and \<open>uint64\<close> are 64-bit words,
  read by \<open>sint\<close> and \<open>uint\<close>.
\<close>

definition SendInt :: "string \<Rightarrow> string \<Rightarrow> 64 word \<Rightarrow> panic + request list" where
  "SendInt ident event data =
     (let maxIntToStrLen = 20 in
      and_then (format ident event maxIntToStrLen) (\<lambda>p.
      and_then (reslice p (int (slice_len p) - (maxIntToStrLen + 2))) (\<lambda>p.
      let p = AppendInt p data in
      and_then (reslice p (int (slice_len p) + 2)) (\<lambda>p.
      and_then (store p (int (slice_len p) - 2) newline) (\<lambda>p.
      and_then (store p (int (slice_len p) - 1) newline) (\<lambda>p.
      Inr [Event (bytes_of p)]))))))"

definition SendUint :: "string \<Rightarrow> string \<Rightarrow> 64 word \<Rightarrow> panic + request list" where
  "SendUint ident event data =
     (let maxUintToStrLen = 20 in
      and_then (format ident event maxUintToStrLen) (\<lambda>p.
      and_then (reslice p (int (slice_len p) - (maxUintToStrLen + 2))) (\<lambda>p.
      let p = AppendUint p data in
      and_then (reslice p (int (slice_len p) + 2)) (\<lambda>p.
      and_then (store p (int (slice_len p) - 2) newline) (\<lambda>p.
      and_then (store p (int (slice_len p) - 1) newline) (\<lambda>p.
      Inr [Event (bytes_of p)]))))))"

text \<open>
  \<^verbatim>\<open>SendJSON\<close>: \<^verbatim>\<open>json.Marshal\<close> belongs to the standard library and is a parameter of
  the model, a function that returns an error or the encoded bytes. The result is the
  error the call returns (\<open>None\<close> for \<^verbatim>\<open>nil\<close>) and the values it sent.
\<close>

definition SendJSON ::
  "('v \<Rightarrow> 'e + bytes) \<Rightarrow> string \<Rightarrow> string \<Rightarrow> 'v \<Rightarrow> panic + ('e option \<times> request list)" where
  "SendJSON Marshal ident event v =
     (case Marshal v of
        Inl err \<Rightarrow> Inr (Some err, [])
      | Inr data \<Rightarrow> and_then (SendBytes ident event data) (\<lambda>sent. Inr (None, sent)))"

section \<open>The coordinator\<close>

text \<open>
  The state the goroutine of \<^verbatim>\<open>run\<close> works on, and what decides whether its sends
  complete. \<open>clients\<close> is the map \<^verbatim>\<open>s.clients\<close>, an association list with distinct
  keys. \<open>sent\<close> holds, for every client channel, the frames sent on it so far, oldest
  first. The client channels are unbuffered (\<^verbatim>\<open>make(client)\<close>), so a send completes
  only when the handler receives, and a frame that has been sent is a frame the handler
  has received.

  \<open>left_loop\<close> tells of a client channel that its handler has taken the case
  \<^verbatim>\<open><-close\<close> of its \<^verbatim>\<open>select\<close>: it is in the send \<^verbatim>\<open>s.disconnecting <- cl\<close>, or has
  returned, and receives nothing on the channel any more. A handler that has not left
  its loop is in its \<^verbatim>\<open>select\<close> or comes back to it after the write and the flush,
  which are taken to return. \<open>blocked\<close> is \<open>Some cl\<close> when the coordinator is in a send
  \<^verbatim>\<open>cl <- event\<close> that cannot complete: the handler of \<open>cl\<close> has left its loop, and the
  send on \<^verbatim>\<open>s.disconnecting\<close> that it waits in completes only when the coordinator
  receives, which it does in its \<^verbatim>\<open>select\<close> alone. The coordinator then stays
  there.

  The loop \<^verbatim>\<open>for cl := range s.clients\<close> visits every key of the map once, in an order
  that Go leaves to the runtime and that may differ from one loop to the next.
  \<open>orders\<close> holds what the runtime picks for the loops to come, one list of clients for
  each.
\<close>

record state =
  clients :: "(client, bool) alist"
  sent :: "client \<Rightarrow> bytes list"
  left_loop :: "client \<Rightarrow> bool"
  blocked :: "client option"
  orders :: "client list list"

text \<open>
  The order in which a \<^verbatim>\<open>range\<close> loop visits the keys of the map \<open>m\<close> when the runtime
  picks \<open>pick\<close>: the keys that \<open>pick\<close> names, in the order in which it names them first,
  then the other keys in the order of the association list. Every key is visited once,
  and every order of the keys is the one of some pick (the order itself).
\<close>

definition range_keys :: "client list \<Rightarrow> (client, bool) alist \<Rightarrow> client list" where
  "range_keys pick m =
     (let keys = map fst (DAList.impl_of m)
      in filter (\<lambda>cl. cl \<in> set keys) (remdups pick) @ filter (\<lambda>cl. cl \<notin> set pick) keys)"

definition next_order :: "state \<Rightarrow> client list" where
  "next_order s = (case orders s of [] \<Rightarrow> [] | pick # later \<Rightarrow> pick)"

text \<open>
  \<^verbatim>\<open>for cl := range s.clients { cl <- event }\<close>, over the keys of the map in the order
  of the loop: each send in turn, as long as the sends complete. \<open>gone\<close> tells which
  handlers have left their loop. The result is the frames sent on every channel and
  the client in whose send the loop stays, if there is one.
\<close>

primrec fan_out ::
  "(client \<Rightarrow> bool) \<Rightarrow> client list \<Rightarrow> bytes \<Rightarrow> (client \<Rightarrow> bytes list)
     \<Rightarrow> (client \<Rightarrow> bytes list) \<times> client option" where
  "fan_out gone [] ev q = (q, None)"
| "fan_out gone (cl # cls) ev q =
     (if gone cl then (q, Some cl) else fan_out gone cls ev (q(cl := q cl @ [ev])))"

text \<open>
  One pass through the \<^verbatim>\<open>select\<close> of \<^verbatim>\<open>run\<close>, for the value it received. After the
  pass \<open>blocked\<close> is \<open>None\<close> when the coordinator is back at its \<^verbatim>\<open>select\<close>.
\<close>

fun run_step :: "request \<Rightarrow> state \<Rightarrow> state" where
  "run_step (Connecting cl) s = s\<lparr>clients := DAList.update cl True (clients s)\<rparr>"
| "run_step (Disconnecting cl) s = s\<lparr>clients := DAList.delete cl (clients s)\<rparr>"
| "run_step (Event ev) s =
     (case fan_out (left_loop s) (range_keys (next_order s) (clients s)) ev (sent s) of
        (q, b) \<Rightarrow> s\<lparr>sent := q, blocked := b, orders := tl (orders s)\<rparr>)"

text \<open>
  The loop \<^verbatim>\<open>for { select { ... } }\<close> has no exit. \<open>run\<close> is the loop over the values
  offered to it so far, in their order: it takes the next one when it is at its
  \<^verbatim>\<open>select\<close>, and none once it is blocked in a send.
\<close>

fun run :: "request list \<Rightarrow> state \<Rightarrow> state" where
  "run [] s = s"
| "run (r # rs) s = (if blocked s = None then run rs (run_step r s) else s)"

text \<open>
  \<^verbatim>\<open>New\<close>: an empty map; nothing has been sent on any client channel, no handler has
  left its loop, and the coordinator is at its \<^verbatim>\<open>select\<close>. With no pick of the
  runtime given, the loops visit the keys in the order of the association list.
\<close>

definition New :: state where
  "New = \<lparr>clients = DAList.empty, sent = (\<lambda>cl. []), left_loop = (\<lambda>cl. False),
          blocked = None, orders = []\<rparr>"

text \<open>The Registry: a client is registered when it is a key of \<^verbatim>\<open>s.clients\<close>.\<close>

definition registered :: "state \<Rightarrow> client \<Rightarrow> bool" where
  "registered s cl = (DAList.lookup (clients s) cl \<noteq> None)"

text \<open>
  What happens in the system, one thing after the other: the coordinator is offered a
  value on one of its three channels, or the handler of a client gets the close
  notification and takes the case \<^verbatim>\<open><-close\<close> of its \<^verbatim>\<open>select\<close>.
\<close>

datatype action = Receives request | Closes client

definition take_close :: "client \<Rightarrow> state \<Rightarrow> state" where
  "take_close cl s = s\<lparr>left_loop := (left_loop s)(cl := True)\<rparr>"

fun system_step :: "action \<Rightarrow> state \<Rightarrow> state" where
  "system_step (Receives r) s = run [r] s"
| "system_step (Closes cl) s = take_close cl s"

definition system :: "action list \<Rightarrow> state \<Rightarrow> state" where
  "system acts s = fold system_step acts s"

section \<open>The connection handler\<close>

text \<open>
  What the handler uses of an \<^verbatim>\<open>http.ResponseWriter\<close>: whether it is an
  \<^verbatim>\<open>http.Flusher\<close> and an \<^verbatim>\<open>http.CloseNotifier\<close>, its header map, the status code once
  written, the bytes written to the body, and how many of them have been flushed.
  \<^verbatim>\<open>http.Error\<close>, \<^verbatim>\<open>Header().Set\<close>, \<^verbatim>\<open>Write\<close> and \<^verbatim>\<open>Flush\<close> belong to the standard
  library and are modelled from its documentation: \<^verbatim>\<open>http.Error\<close> sets two headers,
  writes the status code and then the message and a newline; the first write of a
  response that has no status code yet gives it the status 200. A write is taken to
  succeed (the source ignores its result).
\<close>

record ResponseWriter =
  is_Flusher :: bool
  is_CloseNotifier :: bool
  header :: "string \<rightharpoonup> string"
  status :: "nat option"
  body :: bytes
  flushed :: nat

definition StatusNotImplemented :: nat where
  "StatusNotImplemented = 501"

definition Header_Set :: "ResponseWriter \<Rightarrow> string \<Rightarrow> string \<Rightarrow> ResponseWriter" where
  "Header_Set w k v = w\<lparr>header := (header w)(k \<mapsto> v)\<rparr>"

definition WriteHeader :: "ResponseWriter \<Rightarrow> nat \<Rightarrow> ResponseWriter" where
  "WriteHeader w code = (case status w of None \<Rightarrow> w\<lparr>status := Some code\<rparr> | Some _ \<Rightarrow> w)"

definition Write :: "ResponseWriter \<Rightarrow> bytes \<Rightarrow> ResponseWriter" where
  "Write w b = (let w = WriteHeader w 200 in w\<lparr>body := body w @ b\<rparr>)"

definition Flush :: "ResponseWriter \<Rightarrow> ResponseWriter" where
  "Flush w = w\<lparr>flushed := length (body w)\<rparr>"

definition Error :: "ResponseWriter \<Rightarrow> string \<Rightarrow> nat \<Rightarrow> ResponseWriter" where
  "Error w msg code =
     (let w = Header_Set w ''Content-Type'' ''text/plain; charset=utf-8'';
          w = Header_Set w ''X-Content-Type-Options'' ''nosniff'';
          w = WriteHeader w code
      in Write w (msg @ [newline]))"

text \<open>
  The loop of \<^verbatim>\<open>ServeHTTP\<close>. Each pass waits in a \<^verbatim>\<open>select\<close>; \<open>selected\<close> is what a pass
  gets: the close notification, or a frame from the handler's own channel \<open>cl\<close>. The
  loop runs over the outcomes so far; with none left the handler is still waiting. It
  returns the writer and the values sent to the coordinator.
\<close>

datatype selected = Closed | Frame bytes

fun serve_loop :: "client \<Rightarrow> selected list \<Rightarrow> ResponseWriter \<Rightarrow> ResponseWriter \<times> request list" where
  "serve_loop cl [] w = (w, [])"
| "serve_loop cl (Closed # rest) w = (w, [Disconnecting cl])"
| "serve_loop cl (Frame ev # rest) w = serve_loop cl rest (Flush (Write w ev))"

text \<open>
  \<^verbatim>\<open>ServeHTTP\<close>. \<open>cl\<close> is the channel that \<^verbatim>\<open>make(client)\<close> returns. The result is the
  writer and the values the handler sent on \<^verbatim>\<open>s.connecting\<close> and
  \<^verbatim>\<open>s.disconnecting\<close>.
\<close>

definition ServeHTTP :: "ResponseWriter \<Rightarrow> client \<Rightarrow> selected list \<Rightarrow> ResponseWriter \<times> request list" where
  "ServeHTTP w cl outcomes =
     (if \<not> is_Flusher w
      then (Error w ''Flushing not supported'' StatusNotImplemented, [])
      else if \<not> is_CloseNotifier w
      then (Error w ''Closing not supported'' StatusNotImplemented, [])
      else
        let w = Header_Set w ''Cache-Control'' ''no-cache'';
            w = Header_Set w ''Connection'' ''keep-alive'';
            w = Header_Set w ''Content-Type'' ''text/event-stream'';
            (w, out) = serve_loop cl outcomes w
        in (w, Connecting cl # out))"

section \<open>The vocabulary of the specification\<close>

text \<open>
  The frame that the rules of the encoder's contract prescribe for an event type and a
  payload: the line \<open>event:<eventType>\<close> when the event type is not empty, then \<open>data\<close>,
  followed by \<open>:<payload>\<close> when the payload is not empty, then two newlines. The id
  has no part in it.
\<close>

definition spec_event_line :: "string \<Rightarrow> bytes" where
  "spec_event_line eventType = (if eventType = [] then [] else ''event:'' @ eventType @ [newline])"

definition spec_data_field :: "bytes \<Rightarrow> bytes" where
  "spec_data_field payload = ''data'' @ (if payload = [] then [] else CHR '':'' # payload)"

definition spec_encode :: "string \<Rightarrow> bytes \<Rightarrow> bytes" where
  "spec_encode eventType payload
     = spec_event_line eventType @ spec_data_field payload @ [newline, newline]"

text \<open>The number of newline characters a byte sequence ends with.\<close>

definition trailing_newlines :: "bytes \<Rightarrow> nat" where
  "trailing_newlines f = length (takeWhile (\<lambda>c. c = newline) (rev f))"

text \<open>
  The lines of a byte sequence, split at every newline character, and whether one of
  them starts with \<open>id:\<close>.
\<close>

fun lines_of :: "bytes \<Rightarrow> bytes list" where
  "lines_of [] = [[]]"
| "lines_of (c # cs) =
     (if c = newline then [] # lines_of cs
      else case lines_of cs of l # ls \<Rightarrow> (c # l) # ls | [] \<Rightarrow> [[c]])"

definition is_id_line :: "bytes \<Rightarrow> bool" where
  "is_id_line l = (take 3 l = ''id:'')"

definition has_id_line :: "bytes \<Rightarrow> bool" where
  "has_id_line f = list_ex is_id_line (lines_of f)"




text \<open>
  Concrete inputs for the examples below: a \<^verbatim>\<open>json.Marshal\<close> that fails on \<open>0\<close>, a
  fresh response writer that cannot flush, and a fresh one that can flush and notify.
\<close>

definition Marshal_example :: "nat \<Rightarrow> string + bytes" where
  "Marshal_example v = (if v = 0 then Inl ''json: unsupported value'' else Inr ''true'')"

definition plain_writer :: ResponseWriter where
  "plain_writer = \<lparr>is_Flusher = False, is_CloseNotifier = True, header = Map.empty,
     status = None, body = [], flushed = 0\<rparr>"


text \<open>
  A slice under construction: the bytes written so far, followed by \<open>k\<close> zero bytes
  still to be written, all of them within the length.
\<close>

definition partial :: "bytes \<Rightarrow> nat \<Rightarrow> slice" where
  "partial pre k = \<lparr>slice_arr = pre @ replicate k zero_byte, slice_len = length pre + k\<rparr>"

section \<open>Slice operations on a slice under construction\<close>

lemma and_then_Inr [simp]: "and_then (Inr x) f = f x"
  by (simp add: and_then_def)

lemma and_then_Inl [simp]: "and_then (Inl e) f = Inl e"
  by (simp add: and_then_def)

lemma make_bytes_partial: "0 \<le> l \<Longrightarrow> make_bytes l = Inr (partial [] (nat l))"
  by (simp add: make_bytes_def partial_def)

lemma copy_at_partial:
  "i = int (length pre) + int m \<Longrightarrow> m + length src \<le> k \<Longrightarrow>
   copy_at (partial pre k) i src
     = Inr (partial (pre @ replicate m zero_byte @ src) (k - m - length src), int (length src))"
  by (auto simp add: copy_at_def partial_def Let_def min_def nat_add_distrib
      replicate_add [symmetric])

lemma copy_at_partial0:
  "i = int (length pre) \<Longrightarrow> length src \<le> k \<Longrightarrow>
   copy_at (partial pre k) i src = Inr (partial (pre @ src) (k - length src), int (length src))"
  using copy_at_partial [of i pre 0 src k] by simp

lemma store_partial:
  "i = int (length pre) \<Longrightarrow> 0 < k \<Longrightarrow>
   store (partial pre k) i b = Inr (partial (pre @ [b]) (k - 1))"
  by (cases k) (auto simp add: store_def partial_def list_update_append)

section \<open>What format builds\<close>

lemma format_partial:
  "format ident event dataLen
     = Inr (partial (spec_event_line event @ ''data''
                     @ (if 0 < dataLen then CHR '':'' # replicate (nat dataLen) zero_byte else [])
                     @ [newline, newline]) 0)"
proof (cases "event = []")
  case True
  show ?thesis
  proof (cases "0 < dataLen")
    case False
    with True show ?thesis
      by (simp add: format_def Let_def make_bytes_partial copy_at_partial0 spec_event_line_def)
  next
    case d: True
    have "copy_at (partial ''data:'' (nat dataLen + 2)) (5 + dataLen) [newline, newline]
         = Inr (partial (''data:'' @ replicate (nat dataLen) zero_byte @ [newline, newline]) 0, 2)"
      using d copy_at_partial [of "5 + dataLen" "''data:''" "nat dataLen" "[newline, newline]"
          "nat dataLen + 2"]
      by simp
    with True d show ?thesis
      by (simp add: format_def Let_def make_bytes_partial copy_at_partial0 store_partial
          spec_event_line_def nat_add_distrib)
  qed
next
  case ev: False
  then have len: "0 < length event" by simp
  show ?thesis
  proof (cases "0 < dataLen")
    case False
    with ev len show ?thesis
      by (simp add: format_def Let_def make_bytes_partial copy_at_partial0 store_partial
          spec_event_line_def nat_add_distrib)
  next
    case d: True
    let ?pre = "''event:'' @ event @ [newline] @ ''data:''"
    have "copy_at (partial ?pre (nat dataLen + 2)) (12 + int (length event) + dataLen)
            [newline, newline]
         = Inr (partial (?pre @ replicate (nat dataLen) zero_byte @ [newline, newline]) 0, 2)"
      using d copy_at_partial [of "12 + int (length event) + dataLen" ?pre "nat dataLen"
          "[newline, newline]" "nat dataLen + 2"]
      by simp
    with ev len d show ?thesis
      by (simp add: format_def Let_def make_bytes_partial copy_at_partial0 store_partial
          spec_event_line_def nat_add_distrib add.commute add.left_commute)
  qed
qed

section \<open>Filling in the data\<close>

lemma copy_at_segment:
  "slice_arr p = pre @ mid @ post \<Longrightarrow> length mid = length src \<Longrightarrow> i = int (length pre) \<Longrightarrow>
   length pre + length src \<le> slice_len p \<Longrightarrow>
   copy_at p i src = Inr (p\<lparr>slice_arr := pre @ src @ post\<rparr>, int (length src))"
  by (auto simp add: copy_at_def Let_def min_def)

lemma fill_in_data:
  "and_then (format ident event (int (length data))) (\<lambda>p.
     and_then (copy_at p (int (slice_len p) - (2 + int (length data))) data) (\<lambda>(p, _).
     Inr [Event (bytes_of p)]))
   = Inr [Event (spec_encode event data)]"
proof (cases "data = []")
  case True
  then show ?thesis
    by (simp add: format_partial partial_def copy_at_def bytes_of_def spec_encode_def
        spec_data_field_def)
next
  case False
  let ?pre = "spec_event_line event @ ''data:''"
  let ?p = "partial (?pre @ replicate (length data) zero_byte @ [newline, newline]) 0"
  have "copy_at ?p (int (length ?pre)) data
        = Inr (?p\<lparr>slice_arr := ?pre @ data @ [newline, newline]\<rparr>, int (length data))"
    by (rule copy_at_segment [where mid = "replicate (length data) zero_byte"])
       (simp_all add: partial_def)
  with False show ?thesis
    by (simp add: format_partial partial_def bytes_of_def spec_encode_def spec_data_field_def)
qed

lemma SendBytes_encode: "SendBytes ident event data = Inr [Event (spec_encode event data)]"
  unfolding SendBytes_def by (rule fill_in_data)

lemma SendString_encode: "SendString ident event data = Inr [Event (spec_encode event data)]"
  unfolding SendString_def by (rule fill_in_data)

section \<open>The numeric variants\<close>

declare digits.simps [simp del]

lemma length_digits: "0 < k \<Longrightarrow> n < 10 ^ k \<Longrightarrow> length (digits n) \<le> k"
proof (induction k arbitrary: n)
  case 0
  then show ?case by simp
next
  case (Suc k)
  show ?case
  proof (cases "n < 10")
    case True
    then show ?thesis by (simp add: digits.simps)
  next
    case False
    with Suc.prems have k: "0 < k" by (cases k) auto
    from Suc.prems have "n div 10 < 10 ^ k" by simp
    with k Suc.IH have "length (digits (n div 10)) \<le> k" by simp
    with False show ?thesis by (subst digits.simps) simp
  qed
qed

lemma length_decimal_sint: "length (decimal (sint (i :: 64 word))) \<le> 20"
proof -
  have lo: "- (2 ^ 63) \<le> sint i" and hi: "sint i < 2 ^ 63"
    using sint_ge [of i] sint_lt [of i] by simp_all
  show ?thesis
  proof (cases "sint i < 0")
    case True
    from lo have "- sint i < 10 ^ 19" by simp
    then have "length (digits (- sint i)) \<le> 19" by (intro length_digits) simp_all
    with True show ?thesis by (simp add: decimal_def)
  next
    case False
    from hi have "sint i < 10 ^ 19" by simp
    then have "length (digits (sint i)) \<le> 19" by (intro length_digits) simp_all
    with False show ?thesis by (simp add: decimal_def)
  qed
qed

lemma length_decimal_uint: "length (decimal (uint (i :: 64 word))) \<le> 20"
proof -
  have "uint i < 2 ^ 64" using uint_lt2p [of i] by simp
  then have "uint i < 10 ^ 20" by simp
  then have "length (digits (uint i)) \<le> 20" by (intro length_digits) simp_all
  then show ?thesis by (simp add: decimal_def)
qed

lemma append_in_place:
  "slice_arr q = pre @ rest \<Longrightarrow> slice_len q = length pre \<Longrightarrow> length xs \<le> length rest \<Longrightarrow>
   append_bytes q xs
     = \<lparr>slice_arr = (pre @ xs) @ drop (length xs) rest, slice_len = length (pre @ xs)\<rparr>"
  by (simp add: append_bytes_def cap_def)

lemma rewrite_newlines:
  "2 \<le> length rest \<Longrightarrow>
   and_then (reslice \<lparr>slice_arr = pre @ rest, slice_len = length pre\<rparr> (int (length pre) + 2)) (\<lambda>p.
   and_then (store p (int (slice_len p) - 2) newline) (\<lambda>p.
   and_then (store p (int (slice_len p) - 1) newline) (\<lambda>p.
   Inr [Event (bytes_of p)])))
   = Inr [Event (pre @ [newline, newline])]"
proof -
  assume "2 \<le> length rest"
  then obtain a b rest' where rest: "rest = a # b # rest'"
    by (cases rest; cases "tl rest") auto
  show ?thesis
    by (simp add: rest reslice_def store_def cap_def bytes_of_def list_update_append
        nat_add_distrib)
qed

lemma send_number:
  assumes "length ds \<le> 20"
  shows "and_then (format ident event 20) (\<lambda>p.
      and_then (reslice p (int (slice_len p) - (20 + 2))) (\<lambda>p.
      let p = append_bytes p ds in
      and_then (reslice p (int (slice_len p) + 2)) (\<lambda>p.
      and_then (store p (int (slice_len p) - 2) newline) (\<lambda>p.
      and_then (store p (int (slice_len p) - 1) newline) (\<lambda>p.
      Inr [Event (bytes_of p)])))))
    = Inr [Event (spec_event_line event @ ''data:'' @ ds @ [newline, newline])]"
proof -
  let ?pre = "spec_event_line event @ ''data:''"
  let ?rest = "replicate 20 zero_byte @ [newline, newline]"
  let ?q = "\<lparr>slice_arr = ?pre @ ?rest, slice_len = length ?pre\<rparr>"
  have fmt: "format ident event 20
             = Inr \<lparr>slice_arr = ?pre @ ?rest, slice_len = length ?pre + 22\<rparr>"
    by (simp add: format_partial partial_def)
  have cut: "reslice \<lparr>slice_arr = ?pre @ ?rest, slice_len = length ?pre + 22\<rparr>
               (int (length ?pre + 22) - (20 + 2)) = Inr ?q"
    by (simp add: reslice_def cap_def)
  have app: "append_bytes ?q ds
             = \<lparr>slice_arr = (?pre @ ds) @ drop (length ds) ?rest,
                slice_len = length (?pre @ ds)\<rparr>"
    using assms by (intro append_in_place) simp_all
  have "2 \<le> length (drop (length ds) ?rest)"
    using assms by simp
  from rewrite_newlines [OF this, of "?pre @ ds"] fmt cut app show ?thesis
    by (simp add: Let_def)
qed

lemma SendInt_frame:
  "SendInt ident event n
     = Inr [Event (spec_event_line event @ ''data:'' @ decimal (sint n) @ [newline, newline])]"
  using send_number [OF length_decimal_sint, of ident event n]
  by (simp add: SendInt_def AppendInt_def Let_def)

lemma SendUint_frame:
  "SendUint ident event u
     = Inr [Event (spec_event_line event @ ''data:'' @ decimal (uint u) @ [newline, newline])]"
  using send_number [OF length_decimal_uint, of ident event u]
  by (simp add: SendUint_def AppendUint_def Let_def)

lemma digits_not_empty: "digits n \<noteq> []"
  by (subst digits.simps) simp

lemma decimal_not_empty: "decimal n \<noteq> []"
  by (simp add: decimal_def digits_not_empty)

section \<open>The encoder\<close>

text \<open>
  C3. Whatever the id, the frame sent for the event type \<open>""\<close> and the payload \<open>""\<close> is
  exactly \<open>data\<close> and two newlines, and the frame for the event type \<open>update\<close> and the
  payload \<open>42\<close> is exactly \<open>event:update\<close>, a newline, \<open>data:42\<close> and two newlines. For
  every event type, an empty payload gives \<open>data\<close> with no colon after it, and a payload
  of one byte or more gives \<open>data:\<close> followed by the payload. \<^verbatim>\<open>SendString\<close> sends the
  same frames as \<^verbatim>\<open>SendBytes\<close>.
\<close>

theorem C3_frames_and_colon:
  "SendBytes ident '''' [] = Inr [Event (''data'' @ [newline, newline])]
   \<and> SendBytes ident ''update'' ''42''
       = Inr [Event (''event:update'' @ [newline] @ ''data:42'' @ [newline, newline])]
   \<and> SendBytes ident eventType []
       = Inr [Event (spec_event_line eventType @ ''data'' @ [newline, newline])]
   \<and> (1 \<le> length payload \<longrightarrow>
        SendBytes ident eventType payload
          = Inr [Event (spec_event_line eventType @ ''data:'' @ payload @ [newline, newline])])
   \<and> SendString ident eventType payload = SendBytes ident eventType payload"
  by (auto simp add: SendBytes_encode SendString_encode spec_encode_def spec_data_field_def
      spec_event_line_def)

theorem C3_frames_and_colon_witness:
  "1 \<le> length ''x''
   \<and> SendBytes ''7'' '''' ''x'' = Inr [Event (''data:x'' @ [newline, newline])]
   \<and> SendBytes ''7'' ''greeting'' ''hi''
       = Inr [Event (''event:greeting'' @ [newline] @ ''data:hi'' @ [newline, newline])]"
  using C3_frames_and_colon [of "''7''" "''''" "''x''"]
    C3_frames_and_colon [of "''7''" "''greeting''" "''hi''"]
  by (simp add: spec_event_line_def)

lemma decimal_min_int64:
  "decimal (sint (- 9223372036854775808 :: 64 word)) = ''-9223372036854775808''"
  by code_simp

lemma decimal_max_uint64:
  "decimal (uint (- 1 :: 64 word)) = ''18446744073709551615''"
  by code_simp

text \<open>
  C5. For every id, event type and signed 64-bit \<open>n\<close>, \<^verbatim>\<open>SendInt\<close> sends exactly what
  \<^verbatim>\<open>SendString\<close> sends for the decimal text of \<open>n\<close>, and likewise \<^verbatim>\<open>SendUint\<close> for every
  unsigned 64-bit \<open>u\<close>. The frame is the event line, \<open>data:\<close>, the digits and two
  newlines: none of the 20 reserved bytes is left in it.
\<close>

theorem C5_numbers_as_decimal_strings:
  "SendInt ident event n = SendString ident event (decimal (sint n))
   \<and> SendUint ident event u = SendString ident event (decimal (uint u))
   \<and> SendInt ident event n
       = Inr [Event (spec_event_line event @ ''data:'' @ decimal (sint n) @ [newline, newline])]
   \<and> SendUint ident event u
       = Inr [Event (spec_event_line event @ ''data:'' @ decimal (uint u) @ [newline, newline])]"
  by (simp add: SendInt_frame SendUint_frame SendString_encode spec_encode_def spec_data_field_def
      decimal_not_empty)

theorem C5_numbers_as_decimal_strings_witness:
  "SendInt ''1'' ''ev'' (- 9223372036854775808)
     = SendString ''1'' ''ev'' ''-9223372036854775808''
   \<and> SendUint ''1'' ''ev'' (- 1) = SendString ''1'' ''ev'' ''18446744073709551615''
   \<and> SendInt ''1'' ''ev'' (- 9223372036854775808)
       = Inr [Event (''event:ev'' @ [newline] @ ''data:-9223372036854775808''
                     @ [newline, newline])]"
proof -
  note both = C5_numbers_as_decimal_strings [of "''1''" "''ev''" "- 9223372036854775808" "- 1",
      unfolded decimal_min_int64 decimal_max_uint64]
  have "spec_event_line ''ev'' = ''event:ev'' @ [newline]"
    by (simp add: spec_event_line_def)
  with both show ?thesis
    by (elim conjE) simp
qed

text \<open>
  C10. The decimal text of a signed and of an unsigned 64-bit integer has at most 20
  bytes. The slice that \<^verbatim>\<open>format\<close> returns for 20 reserved bytes has at least 22 bytes
  and as much capacity, so cutting 22 bytes off, appending the digits and extending by
  2 stays within the capacity. \<^verbatim>\<open>SendInt\<close> and \<^verbatim>\<open>SendUint\<close> run to their send for every
  id, event type and number: no index and no slice bound is out of range.
\<close>

theorem C10_numeric_sends_do_not_panic:
  "length (decimal (sint (n :: 64 word))) \<le> 20
   \<and> length (decimal (uint (u :: 64 word))) \<le> 20
   \<and> (\<exists>p. format ident event 20 = Inr p \<and> 20 + 2 \<le> slice_len p \<and> slice_len p \<le> cap p
          \<and> (slice_len p - (20 + 2)) + length (decimal (sint n)) + 2 \<le> cap p
          \<and> (slice_len p - (20 + 2)) + length (decimal (uint u)) + 2 \<le> cap p)
   \<and> (\<exists>frame. SendInt ident event n = Inr [Event frame])
   \<and> (\<exists>frame. SendUint ident event u = Inr [Event frame])"
  using length_decimal_sint [of n] length_decimal_uint [of u]
  by (simp add: SendInt_frame SendUint_frame format_partial partial_def cap_def)

theorem C10_numeric_sends_do_not_panic_witness:
  "length (decimal (sint (- 9223372036854775808 :: 64 word))) = 20
   \<and> length (decimal (uint (- 1 :: 64 word))) = 20
   \<and> (\<exists>frame. SendInt ''1'' ''ev'' (- 9223372036854775808) = Inr [Event frame])
   \<and> (\<exists>frame. SendUint ''1'' ''ev'' (- 1) = Inr [Event frame])"
proof -
  have "length (decimal (sint (- 9223372036854775808 :: 64 word))) = 20"
    by (subst decimal_min_int64) simp
  moreover have "length (decimal (uint (- 1 :: 64 word))) = 20"
    by (subst decimal_max_uint64) simp
  moreover
  from C10_numeric_sends_do_not_panic [of "- 9223372036854775808" "- 1" "''1''" "''ev''"]
  have "(\<exists>frame. SendInt ''1'' ''ev'' (- 9223372036854775808) = Inr [Event frame])
        \<and> (\<exists>frame. SendUint ''1'' ''ev'' (- 1) = Inr [Event frame])"
    by (elim conjE) (rule conjI)
  ultimately show ?thesis by (simp only: simp_thms)
qed

section \<open>Newlines at the end of a frame\<close>

lemma trailing_newlines_terminator:
  "trailing_newlines (xs @ [newline, newline]) = 2 + trailing_newlines xs"
  by (simp add: trailing_newlines_def)

lemma trailing_newlines_after:
  "c \<noteq> newline \<Longrightarrow> trailing_newlines (xs @ c # ys) = trailing_newlines ys"
  by (auto simp add: trailing_newlines_def takeWhile_append takeWhile_eq_all_conv [THEN iffD2])

lemma trailing_newlines_encode:
  "trailing_newlines (spec_encode event payload) = 2 + trailing_newlines payload"
proof (cases "payload = []")
  case True
  have "trailing_newlines (spec_event_line event @ ''data'') = 0"
    using trailing_newlines_after [of "CHR ''a''" "spec_event_line event @ ''dat''" "[]"]
    by (simp add: trailing_newlines_def)
  with True show ?thesis
    using trailing_newlines_terminator [of "spec_event_line event @ ''data''"]
    by (simp add: spec_encode_def spec_data_field_def trailing_newlines_def)
next
  case False
  have "trailing_newlines (spec_event_line event @ ''data:'' @ payload) = trailing_newlines payload"
    using trailing_newlines_after [of "CHR '':''" "spec_event_line event @ ''data''" payload]
    by simp
  with False show ?thesis
    using trailing_newlines_terminator [of "spec_event_line event @ ''data:'' @ payload"]
    by (simp add: spec_encode_def spec_data_field_def)
qed

lemma digit_not_newline: "k < 10 \<Longrightarrow> ''0123456789'' ! k \<noteq> newline"
proof -
  assume "k < 10"
  then have "k \<in> {0, 1, 2, 3, 4, 5, 6, 7, 8, 9}" by auto
  then show ?thesis by auto
qed

lemma last_digits: "\<exists>ds k. digits n = ds @ [''0123456789'' ! k] \<and> k < 10"
proof (cases "n < 10")
  case True
  then have "digits n = [] @ [''0123456789'' ! nat n] \<and> nat n < 10"
    by (subst digits.simps) simp
  then show ?thesis by blast
next
  case False
  then have "digits n = digits (n div 10) @ [''0123456789'' ! nat (n mod 10)]
             \<and> nat (n mod 10) < 10"
    by (subst digits.simps) simp
  then show ?thesis by blast
qed

lemma trailing_newlines_decimal: "trailing_newlines (decimal n) = 0"
proof -
  obtain ds k where d: "digits \<bar>n\<bar> = ds @ [''0123456789'' ! k]" and k: "k < 10"
    using last_digits by blast
  have "decimal n = (if n < 0 then CHR ''-'' # ds else ds) @ [''0123456789'' ! k]"
    using d by (cases "n < 0") (simp_all add: decimal_def)
  then show ?thesis
    using trailing_newlines_after [OF digit_not_newline [OF k],
        of "if n < 0 then CHR ''-'' # ds else ds" "[]"]
    by (simp add: trailing_newlines_def)
qed

lemma encode_decimal:
  "spec_encode event (decimal n)
     = spec_event_line event @ ''data:'' @ decimal n @ [newline, newline]"
  by (simp add: spec_encode_def spec_data_field_def decimal_not_empty)

text \<open>
  C4, as stated, fails: the payload is copied as it is, so a payload that ends in a
  newline gives a frame that ends in more than two. \<^verbatim>\<open>SendString("1", "", "\n")\<close> sends
  \<open>data:\<close> followed by three newlines.
\<close>

theorem C4_three_newlines_counterexample:
  "SendString ''1'' '''' [newline] = Inr [Event (''data:'' @ [newline, newline, newline])]
   \<and> trailing_newlines (''data:'' @ [newline, newline, newline]) = 3"
  by (simp add: SendString_encode spec_encode_def spec_data_field_def spec_event_line_def
      trailing_newlines_def)

text \<open>
  C4, amended. For every id, event type and payload, on every branch, the frame that
  \<^verbatim>\<open>SendBytes\<close> and \<^verbatim>\<open>SendString\<close> send ends with the two newlines that the encoder
  writes, and the newlines it ends with are these two and those the payload itself
  ends with: exactly two when the payload is empty or does not end in a newline. The
  frames of \<^verbatim>\<open>SendInt\<close> and \<^verbatim>\<open>SendUint\<close> always end with exactly two.
\<close>

theorem C4_terminator:
  "(\<exists>f. SendBytes ident event payload = Inr [Event f]
        \<and> SendString ident event payload = Inr [Event f]
        \<and> suffix [newline, newline] f
        \<and> trailing_newlines f = 2 + trailing_newlines payload)
   \<and> (\<exists>f. SendInt ident event n = Inr [Event f]
        \<and> suffix [newline, newline] f \<and> trailing_newlines f = 2)
   \<and> (\<exists>f. SendUint ident event u = Inr [Event f]
        \<and> suffix [newline, newline] f \<and> trailing_newlines f = 2)"
proof -
  have end2: "suffix [newline, newline] (spec_encode event p)" for p
    by (simp add: spec_encode_def suffix_def)
  have "SendInt ident event n = Inr [Event (spec_encode event (decimal (sint n)))]"
    and "SendUint ident event u = Inr [Event (spec_encode event (decimal (uint u)))]"
    by (simp_all add: SendInt_frame SendUint_frame encode_decimal)
  then show ?thesis
    using end2 by (simp add: SendBytes_encode SendString_encode trailing_newlines_encode
        trailing_newlines_decimal)
qed

section \<open>The id parameter\<close>

lemma lines_of_not_empty [simp]: "lines_of xs \<noteq> []"
  by (induction xs) (auto split: list.splits)

lemma lines_of_newline: "lines_of (xs @ newline # ys) = lines_of xs @ lines_of ys"
  by (induction xs) (auto split: list.splits)

lemma lines_of_prefix:
  "newline \<notin> set xs \<Longrightarrow> lines_of (xs @ ys) = (xs @ hd (lines_of ys)) # tl (lines_of ys)"
  by (induction xs) (auto split: list.splits)

lemma lines_of_no_newline: "newline \<notin> set xs \<Longrightarrow> lines_of xs = [xs]"
  using lines_of_prefix [of xs "[]"] by simp

lemma has_id_line_encode:
  "has_id_line (spec_encode event payload)
   \<longleftrightarrow> list_ex is_id_line (tl (lines_of event)) \<or> list_ex is_id_line (tl (lines_of payload))"
proof -
  have ev: "list_ex is_id_line (lines_of (spec_event_line event @ rest))
            \<longleftrightarrow> list_ex is_id_line (tl (lines_of event)) \<or> list_ex is_id_line (lines_of rest)"
    for rest
  proof (cases "event = []")
    case True
    then show ?thesis by (simp add: spec_event_line_def)
  next
    case False
    have "lines_of ((''event:'' @ event) @ newline # rest)
          = ((''event:'' @ hd (lines_of event)) # tl (lines_of event)) @ lines_of rest"
      using lines_of_prefix [of "''event:''" event]
      by (simp only: lines_of_newline) simp
    with False show ?thesis
      by (simp add: spec_event_line_def is_id_line_def)
  qed
  have da: "list_ex is_id_line (lines_of (spec_data_field payload @ [newline, newline]))
            \<longleftrightarrow> list_ex is_id_line (tl (lines_of payload))"
  proof (cases "payload = []")
    case True
    have "lines_of (''data'' @ [newline, newline]) = [''data'', [], []]"
      using lines_of_newline [of "''data''" "[newline]"] lines_of_prefix [of "''data''" "[]"]
      by simp
    with True show ?thesis
      by (simp add: spec_data_field_def is_id_line_def)
  next
    case False
    have "lines_of ((''data:'' @ payload) @ newline # [newline])
          = ((''data:'' @ hd (lines_of payload)) # tl (lines_of payload)) @ [[], []]"
      using lines_of_prefix [of "''data:''" payload]
      by (simp only: lines_of_newline) simp
    with False show ?thesis
      by (simp add: spec_data_field_def is_id_line_def)
  qed
  show ?thesis
    unfolding has_id_line_def spec_encode_def
    using ev [of "spec_data_field payload @ [newline, newline]"] da
    by simp
qed

text \<open>
  C6, as stated, fails: event type and payload are copied without escaping, so a
  payload with a newline followed by \<open>id:\<close> puts such a line into the frame.
  \<^verbatim>\<open>SendString("7", "", "\nid:7")\<close> sends the lines \<open>data:\<close> and \<open>id:7\<close>.
\<close>

theorem C6_id_line_in_payload_counterexample:
  "SendString ''7'' '''' (newline # ''id:7'')
     = Inr [Event (''data:'' @ [newline] @ ''id:7'' @ [newline, newline])]
   \<and> lines_of (''data:'' @ [newline] @ ''id:7'' @ [newline, newline])
       = [''data:'', ''id:7'', [], []]
   \<and> has_id_line (''data:'' @ [newline] @ ''id:7'' @ [newline, newline])"
  by (simp add: SendString_encode spec_encode_def spec_data_field_def spec_event_line_def
      has_id_line_def is_id_line_def)

text \<open>
  C6, amended. The frame does not depend on the id: \<^verbatim>\<open>format\<close> and the five send
  functions give the same result for any two ids. The encoder writes no \<open>id:\<close> line of
  its own: the frame of \<^verbatim>\<open>SendBytes\<close> and \<^verbatim>\<open>SendString\<close> has a line that starts with
  \<open>id:\<close> exactly when the event type or the payload has one after an embedded newline,
  so it has none when neither contains a newline.
\<close>

theorem C6_id_is_ignored:
  "format id1 event dataLen = format id2 event dataLen
   \<and> SendBytes id1 event payload = SendBytes id2 event payload
   \<and> SendString id1 event payload = SendString id2 event payload
   \<and> SendInt id1 event n = SendInt id2 event n
   \<and> SendUint id1 event u = SendUint id2 event u
   \<and> SendJSON Marshal id1 event v = SendJSON Marshal id2 event v
   \<and> (\<exists>f. SendBytes id1 event payload = Inr [Event f]
        \<and> SendString id1 event payload = Inr [Event f]
        \<and> (has_id_line f \<longleftrightarrow> list_ex is_id_line (tl (lines_of event))
                              \<or> list_ex is_id_line (tl (lines_of payload)))
        \<and> (newline \<notin> set event \<and> newline \<notin> set payload \<longrightarrow> \<not> has_id_line f))"
proof -
  have "format id1 event dataLen = format id2 event dataLen"
    by (simp add: format_def)
  moreover have "SendJSON Marshal id1 event v = SendJSON Marshal id2 event v"
    by (simp add: SendJSON_def SendBytes_encode split: sum.splits)
  moreover have "newline \<notin> set event \<and> newline \<notin> set payload
                 \<longrightarrow> \<not> has_id_line (spec_encode event payload)"
    by (simp add: has_id_line_encode lines_of_no_newline)
  ultimately show ?thesis
    by (simp add: SendBytes_encode SendString_encode SendInt_frame SendUint_frame
        has_id_line_encode)
qed

theorem C6_id_is_ignored_witness:
  "newline \<notin> set ''update'' \<and> newline \<notin> set ''42''
   \<and> SendBytes ''7'' ''update'' ''42'' = SendBytes ''8'' ''update'' ''42''
   \<and> SendBytes ''7'' ''update'' ''42''
       = Inr [Event (''event:update'' @ [newline] @ ''data:42'' @ [newline, newline])]
   \<and> \<not> has_id_line (''event:update'' @ [newline] @ ''data:42'' @ [newline, newline])"
proof -
  have frame: "SendBytes ''7'' ''update'' ''42''
               = Inr [Event (''event:update'' @ [newline] @ ''data:42'' @ [newline, newline])]"
    by (simp add: SendBytes_encode spec_encode_def spec_data_field_def spec_event_line_def)
  have no_nl: "newline \<notin> set ''update'' \<and> newline \<notin> set ''42''"
    by simp
  note fact = C6_id_is_ignored [of "''7''" "''update''" 0 "''8''" "''42''" 0 0
      "\<lambda>x::unit. Inl ()" "()"]
  from fact have same: "SendBytes ''7'' ''update'' ''42'' = SendBytes ''8'' ''update'' ''42''"
    by (elim conjE)
  from fact obtain f where f: "SendBytes ''7'' ''update'' ''42'' = Inr [Event f]"
    and none: "newline \<notin> set ''update'' \<and> newline \<notin> set ''42'' \<longrightarrow> \<not> has_id_line f"
    by (elim conjE exE)
  from f frame have "f = ''event:update'' @ [newline] @ ''data:42'' @ [newline, newline]"
    by (simp only: sum.inject list.inject request.inject)
  with none no_nl
  have "\<not> has_id_line (''event:update'' @ [newline] @ ''data:42'' @ [newline, newline])"
    by (simp only: simp_thms)
  with frame no_nl same show ?thesis
    by (simp only: simp_thms)
qed

section \<open>The steps of the coordinator\<close>

lemma registered_keys:
  "registered s cl \<longleftrightarrow> cl \<in> set (map fst (DAList.impl_of (clients s)))"
  by (simp add: registered_def lookup.rep_eq map_of_eq_None_iff)

lemma set_range_keys: "set (range_keys pick m) = set (map fst (DAList.impl_of m))"
  by (auto simp add: range_keys_def Let_def)

lemma distinct_range_keys: "distinct (range_keys pick m)"
  using DAList.impl_of_distinct [of m]
  by (auto simp add: range_keys_def Let_def distinct_map)

lemma range_keys_any_order:
  "distinct pick \<Longrightarrow> set pick = set (map fst (DAList.impl_of m)) \<Longrightarrow> range_keys pick m = pick"
  by (simp add: range_keys_def Let_def del: set_map)

lemma registered_range: "registered s cl \<longleftrightarrow> cl \<in> set (range_keys pick (clients s))"
  by (simp add: registered_keys set_range_keys del: set_map)

lemma fan_out_other: "cl \<notin> set cls \<Longrightarrow> fst (fan_out gone cls ev q) cl = q cl"
  by (induction cls arbitrary: q) auto

lemma fan_out_at_most_once:
  "distinct cls \<Longrightarrow>
   fst (fan_out gone cls ev q) cl = q cl @ [ev]
   \<or> fst (fan_out gone cls ev q) cl = q cl
      \<and> (cl \<in> set cls \<longrightarrow> snd (fan_out gone cls ev q) \<noteq> None)"
proof (induction cls arbitrary: q)
  case Nil
  then show ?case by simp
next
  case (Cons a cls)
  show ?case
  proof (cases "gone a")
    case True
    then show ?thesis by simp
  next
    case False
    let ?q = "q(a := q a @ [ev])"
    from Cons.prems have a: "a \<notin> set cls" and d: "distinct cls" by simp_all
    show ?thesis
    proof (cases "cl = a")
      case True
      with a False show ?thesis by (simp add: fan_out_other)
    next
      case other: False
      with Cons.IH [OF d, of ?q] False show ?thesis
        by (simp add: fun_upd_other del: fun_upd_apply)
    qed
  qed
qed

lemma fan_out_completes:
  "snd (fan_out gone cls ev q) = None \<longleftrightarrow> (\<forall>cl \<in> set cls. \<not> gone cl)"
  by (induction cls arbitrary: q) auto


lemma fan_out_once:
  "distinct cls \<Longrightarrow> cl \<in> set cls \<Longrightarrow> \<forall>c \<in> set cls. \<not> gone c \<Longrightarrow>
   fst (fan_out gone cls ev q) cl = q cl @ [ev]"
  using fan_out_at_most_once [of cls gone ev q cl] fan_out_completes [of gone cls ev q]
  by auto


lemma left_loop_run_step: "left_loop (run_step r s) = left_loop s"
  by (cases r) (simp_all add: case_prod_beta)








lemma sent_Event_unregistered:
  "\<not> registered s c \<Longrightarrow> sent (run_step (Event ev) s) c = sent s c"
  using fan_out_other [of c "range_keys (next_order s) (clients s)" "left_loop s" ev "sent s"]
  by (simp add: registered_range [of s c "next_order s"] case_prod_beta)

lemma sent_Event_at_most_once:
  "sent (run_step (Event ev) s) c = sent s c @ [ev]
   \<or> sent (run_step (Event ev) s) c = sent s c
      \<and> (registered s c \<longrightarrow> blocked (run_step (Event ev) s) \<noteq> None)"
  using fan_out_at_most_once [of "range_keys (next_order s) (clients s)" "left_loop s" ev "sent s" c]
  by (simp add: registered_range [of s c "next_order s"] distinct_range_keys case_prod_beta)

lemma blocked_Event:
  "blocked (run_step (Event ev) s) = None \<longleftrightarrow> (\<forall>cl. registered s cl \<longrightarrow> \<not> left_loop s cl)"
  using fan_out_completes [of "left_loop s" "range_keys (next_order s) (clients s)" ev "sent s"]
  by (auto simp add: registered_range [of s _ "next_order s"] case_prod_beta)

lemma sent_Event_all:
  "\<forall>cl. registered s cl \<longrightarrow> \<not> left_loop s cl \<Longrightarrow> registered s c \<Longrightarrow>
   sent (run_step (Event ev) s) c = sent s c @ [ev]"
  using sent_Event_at_most_once [of ev s c] blocked_Event [of ev s] by auto

lemma run_blocked: "blocked s \<noteq> None \<Longrightarrow> run rs s = s"
  by (cases rs) auto

lemma run_append: "run (rs @ rs') s = run rs' (run rs s)"
proof (induction rs arbitrary: s)
  case Nil
  then show ?case by simp
next
  case (Cons r rs)
  then show ?case by (simp add: run_blocked del: run_step.simps)
qed

lemma delete_absent: "DAList.lookup m k = None \<Longrightarrow> DAList.delete k m = m"
  by (simp add: alist_eq_iff delete.rep_eq lookup.rep_eq map_of_eq_None_iff)

lemma delete_twice: "DAList.delete k (DAList.delete k m) = DAList.delete k m"
  by (simp add: alist_eq_iff delete.rep_eq delete_idem)





text \<open>
  C8. When the coordinator receives a client on \<^verbatim>\<open>s.disconnecting\<close>, the client is
  removed from the map and every other entry stays; nothing is sent. When the client
  is not in the map the state is unchanged. The step has no error outcome, and taking
  it twice in a row gives the same state as taking it once.
\<close>

theorem C8_deregister:
  "DAList.lookup (clients (run_step (Disconnecting cl) s))
     = (DAList.lookup (clients s))(cl := None)
   \<and> \<not> registered (run_step (Disconnecting cl) s) cl
   \<and> (\<forall>c. c \<noteq> cl \<longrightarrow> registered (run_step (Disconnecting cl) s) c = registered s c)
   \<and> sent (run_step (Disconnecting cl) s) = sent s
   \<and> (\<not> registered s cl \<longrightarrow> run_step (Disconnecting cl) s = s)
   \<and> run_step (Disconnecting cl) (run_step (Disconnecting cl) s)
       = run_step (Disconnecting cl) s
   \<and> run [Disconnecting cl, Disconnecting cl] s = run [Disconnecting cl] s"
  by (auto simp add: registered_def delete_absent delete_twice)

theorem C8_deregister_witness:
  "registered (run [Connecting 1, Connecting 2] New) 1
   \<and> \<not> registered (run_step (Disconnecting 1) (run [Connecting 1, Connecting 2] New)) 1
   \<and> registered (run_step (Disconnecting 1) (run [Connecting 1, Connecting 2] New)) 2
   \<and> \<not> registered (run [Connecting 1, Connecting 2] New) 5
   \<and> run_step (Disconnecting 5) (run [Connecting 1, Connecting 2] New)
       = run [Connecting 1, Connecting 2] New"
proof -
  let ?s = "run [Connecting 1, Connecting 2] New"
  have reg: "registered ?s 1" "registered ?s 2" and none: "\<not> registered ?s 5"
    by code_simp+
  note one = C8_deregister [of 1 ?s] and five = C8_deregister [of 5 ?s]
  from one have "\<not> registered (run_step (Disconnecting 1) ?s) 1" by blast
  moreover from one have "registered (run_step (Disconnecting 1) ?s) 2 = registered ?s 2"
    by (elim conjE allE [of _ 2]) simp
  moreover from five none have "run_step (Disconnecting 5) ?s = ?s" by blast
  ultimately show ?thesis using reg none by simp
qed

section \<open>Delivery over a sequence of actions\<close>

lemma system_Nil [simp]: "system [] s = s"
  by (simp add: system_def)



lemma run_one: "run [r] s = (if blocked s = None then run_step r s else s)"
  by simp






















section \<open>SendJSON\<close>

text \<open>
  C7. For every value \<open>v\<close>: when \<^verbatim>\<open>json.Marshal\<close> fails with \<open>err\<close>, \<^verbatim>\<open>SendJSON\<close> returns
  \<open>err\<close> and sends nothing, so the coordinator receives nothing from the call and its
  state, with all that was sent to the clients, stays as it was. When
  \<^verbatim>\<open>json.Marshal\<close> gives the bytes \<open>data\<close>, \<^verbatim>\<open>SendJSON\<close> returns no error and sends one
  frame, the one \<^verbatim>\<open>SendBytes\<close> sends for \<open>data\<close>; the coordinator, when it is at its
  \<^verbatim>\<open>select\<close> and the handlers of the registered clients are in their loops, passes it
  on to the registered clients.
\<close>

theorem C7_SendJSON:
  "(Marshal v = Inl err \<longrightarrow>
      SendJSON Marshal ident event v = Inr (Some err, []) \<and> run [] s = s)
   \<and> (Marshal v = Inr data \<longrightarrow>
      SendJSON Marshal ident event v = Inr (None, [Event (spec_encode event data)])
      \<and> SendBytes ident event data = Inr [Event (spec_encode event data)]
      \<and> (blocked s = None \<and> (\<forall>cl. registered s cl \<longrightarrow> \<not> left_loop s cl) \<longrightarrow>
          (\<forall>c. sent (run [Event (spec_encode event data)] s) c
              = (if registered s c then sent s c @ [spec_encode event data] else sent s c))))"
  by (simp add: SendJSON_def SendBytes_encode sent_Event_all sent_Event_unregistered
      del: run_step.simps)

theorem C7_SendJSON_witness:
  "Marshal_example 0 = Inl ''json: unsupported value''
   \<and> SendJSON Marshal_example '''' '''' 0 = Inr (Some ''json: unsupported value'', [])
   \<and> Marshal_example 1 = Inr ''true''
   \<and> SendJSON Marshal_example '''' '''' 1
       = Inr (None, [Event (''data:true'' @ [newline, newline])])
   \<and> blocked (run [Connecting 1] New) = None
   \<and> registered (run [Connecting 1] New) 1
   \<and> sent (run [Event (''data:true'' @ [newline, newline])] (run [Connecting 1] New)) 1
       = [''data:true'' @ [newline, newline]]"
proof -
  let ?s = "run [Connecting 1] New"
  have bad: "Marshal_example 0 = Inl ''json: unsupported value''"
    and good: "Marshal_example 1 = Inr ''true''"
    by (simp_all add: Marshal_example_def)
  have enc: "spec_encode '''' ''true'' = ''data:true'' @ [newline, newline]"
    by (simp add: spec_encode_def spec_event_line_def spec_data_field_def)
  have state: "blocked ?s = None" "registered ?s 1" "sent ?s 1 = []"
    by code_simp+
  have loop: "\<forall>cl. registered ?s cl \<longrightarrow> \<not> left_loop ?s cl"
    by (simp add: New_def left_loop_run_step del: run_step.simps)
  from C7_SendJSON [of Marshal_example 0 "''json: unsupported value''" "''''" "''''" New] bad
  have "SendJSON Marshal_example '''' '''' 0 = Inr (Some ''json: unsupported value'', [])"
    by blast
  moreover
  note ok = C7_SendJSON [of Marshal_example 1 "''x''" "''''" "''''" ?s "''true''"]
  from ok good
  have "SendJSON Marshal_example '''' '''' 1 = Inr (None, [Event (spec_encode '''' ''true'')])"
    by blast
  moreover
  from ok good state(1) loop
  have "sent (run [Event (spec_encode '''' ''true'')] ?s) 1
        = (if registered ?s 1 then sent ?s 1 @ [spec_encode '''' ''true''] else sent ?s 1)"
    by blast
  ultimately show ?thesis using bad good enc state by simp
qed

section \<open>A transport that cannot flush or notify\<close>

lemma status_Error: "status w = None \<Longrightarrow> status (Error w msg code) = Some code"
  by (simp add: Error_def Write_def WriteHeader_def Header_Set_def Let_def)

lemma body_Error: "body (Error w msg code) = body w @ msg @ [newline]"
  by (simp add: Error_def Write_def WriteHeader_def Header_Set_def Let_def
      split: option.splits)

lemma ServeHTTP_registers:
  "is_Flusher w \<Longrightarrow> is_CloseNotifier w \<Longrightarrow>
   hd (snd (ServeHTTP w cl outcomes)) = Connecting cl"
  by (simp add: ServeHTTP_def Let_def split: prod.splits)

text \<open>
  C9. When the response writer is not an \<^verbatim>\<open>http.Flusher\<close> or not an
  \<^verbatim>\<open>http.CloseNotifier\<close>, \<^verbatim>\<open>ServeHTTP\<close> answers with \<^verbatim>\<open>http.Error\<close> and the status 501
  (Not Implemented), which on a fresh response is the status of the reply, and
  returns having sent nothing to the coordinator: no client is sent on
  \<^verbatim>\<open>s.connecting\<close>, and the state of the coordinator, its map of clients included, is
  as before.
\<close>

theorem C9_unsupported_transport:
  "\<not> is_Flusher w \<or> \<not> is_CloseNotifier w \<Longrightarrow>
   \<exists>msg. ServeHTTP w cl outcomes = (Error w msg StatusNotImplemented, [])
       \<and> StatusNotImplemented = 501
       \<and> (status w = None \<longrightarrow> status (Error w msg StatusNotImplemented) = Some 501)
       \<and> body (Error w msg StatusNotImplemented) = body w @ msg @ [newline]
       \<and> Connecting cl \<notin> set (snd (ServeHTTP w cl outcomes))
       \<and> run (snd (ServeHTTP w cl outcomes)) s = s"
proof -
  assume refuse: "\<not> is_Flusher w \<or> \<not> is_CloseNotifier w"
  define msg where
    "msg = (if \<not> is_Flusher w then ''Flushing not supported'' else ''Closing not supported'')"
  from refuse have "ServeHTTP w cl outcomes = (Error w msg StatusNotImplemented, [])"
    by (auto simp add: ServeHTTP_def msg_def)
  moreover have "StatusNotImplemented = 501"
    by (simp add: StatusNotImplemented_def)
  ultimately show ?thesis
    using status_Error [of w msg StatusNotImplemented] body_Error [of w msg StatusNotImplemented]
    by (intro exI [of _ msg]) simp
qed

theorem C9_unsupported_transport_witness:
  "\<not> is_Flusher plain_writer
   \<and> status plain_writer = None
   \<and> status (fst (ServeHTTP plain_writer 1 [Frame ''a'', Closed])) = Some 501
   \<and> snd (ServeHTTP plain_writer 1 [Frame ''a'', Closed]) = []
   \<and> run (snd (ServeHTTP plain_writer 1 [Frame ''a'', Closed])) New = New"
proof -
  have hyp: "\<not> is_Flusher plain_writer \<or> \<not> is_CloseNotifier plain_writer"
    and fresh: "status plain_writer = None"
    by (simp_all add: plain_writer_def)
  from C9_unsupported_transport [OF hyp, of 1 "[Frame ''a'', Closed]" New] fresh
  obtain msg where "ServeHTTP plain_writer 1 [Frame ''a'', Closed]
        = (Error plain_writer msg StatusNotImplemented, [])"
    and "status (Error plain_writer msg StatusNotImplemented) = Some 501"
    and "run (snd (ServeHTTP plain_writer 1 [Frame ''a'', Closed])) New = New"
    by blast
  moreover have "\<not> is_Flusher plain_writer"
    by (simp add: plain_writer_def)
  ultimately show ?thesis using fresh by simp
qed

end
